theory Spec2Isabelle
  imports Main "HOL-Library.Stream"
begin

section \<open>Data model of \<open>main.py\<close>\<close>

text \<open>
  A validated \<open>HttpUrl\<close> value. The program only stores it, compares it with \<open>==\<close>
  and hands it back, so it is modelled by its string value.
\<close>

type_synonym url = string

text \<open>\<open>class URLShortened(BaseModel)\<close>: the response of \<open>shorten_url\<close>.\<close>

datatype URLShortened = URLShortened (resp_long_url: url) (resp_short_code: string) (resp_short_url: string)

text \<open>
  \<open>class URLInfo(BaseModel)\<close>: one stored entry. The field \<open>id\<close> is called
  \<open>id_str\<close> here, since \<open>id\<close> is the identity function of HOL.
\<close>

record URLInfo =
  id_str :: string
  long_url :: url
  short_code :: string
  short_url :: string
  clicks :: int

text \<open>
  \<open>HTTPException(status_code, detail)\<close>, the only exception the handlers raise, and
  \<open>RedirectResponse(url, status_code)\<close>.
\<close>

datatype error = HTTPException int string

datatype RedirectResponse = RedirectResponse url int

definition HTTP_404_NOT_FOUND :: int where
  "HTTP_404_NOT_FOUND = 404"

definition HTTP_307_TEMPORARY_REDIRECT :: int where
  "HTTP_307_TEMPORARY_REDIRECT = 307"

definition NotFound :: error where
  "NotFound = HTTPException HTTP_404_NOT_FOUND ''URL corta no encontrada''"

subsection \<open>The dictionary \<open>fake_db\<close>\<close>

text \<open>
  \<open>fake_db: Dict[str, URLInfo]\<close>. A Python dictionary iterates in insertion order, and
  \<open>shorten_url\<close> returns at the first entry its scan finds, so the dictionary is an
  association list in insertion order. \<open>k in d\<close> and \<open>d[k]\<close> are \<open>map_of\<close>;
  \<open>d[k] = v\<close> is \<open>setitem\<close>: an existing key keeps its position and gets the new
  value, a new key is appended.
\<close>

type_synonym db = "(string \<times> URLInfo) list"

primrec setitem :: "db \<Rightarrow> string \<Rightarrow> URLInfo \<Rightarrow> db" where
  "setitem [] k v = [(k, v)]"
| "setitem (p # ps) k v = (if fst p = k then (k, v) # ps else p # setitem ps k v)"

definition keys :: "db \<Rightarrow> string set" where
  "keys d = fst ` set d"

subsection \<open>The state of the process\<close>

text \<open>
  Besides \<open>fake_db\<close> the program reads two sources it does not control: the module
  \<open>random\<close> and \<open>uuid.uuid4()\<close>. Each is an infinite stream of the values still to be
  drawn: \<open>rng\<close> holds the raw draws of \<open>random.choice\<close>, \<open>uuids\<close> the strings
  \<open>str(uuid.uuid4())\<close> will give.
\<close>

record world =
  fake_db :: db
  rng :: "nat stream"
  uuids :: "string stream"

section \<open>The code generator\<close>

definition ascii_lowercase :: string where
  "ascii_lowercase = ''abcdefghijklmnopqrstuvwxyz''"

definition ascii_uppercase :: string where
  "ascii_uppercase = ''ABCDEFGHIJKLMNOPQRSTUVWXYZ''"

definition ascii_letters :: string where
  "ascii_letters = ascii_lowercase @ ascii_uppercase"

definition digits :: string where
  "digits = ''0123456789''"

text \<open>\<open>characters = string.ascii_letters + string.digits\<close>\<close>

definition characters :: string where
  "characters = ascii_letters @ digits"

text \<open>
  \<open>random.choice(seq)\<close> is \<open>seq[randbelow(len(seq))]\<close>: the next raw draw, reduced
  below the length of the sequence, indexes it. The program calls it on \<open>characters\<close>
  only, which is not empty, so the \<open>IndexError\<close> of an empty sequence does not arise.
\<close>

definition random_choice :: "'a list \<Rightarrow> nat stream \<Rightarrow> 'a \<times> nat stream" where
  "random_choice seq s = (seq ! (shd s mod length seq), stl s)"

text \<open>\<open>''.join(random.choice(characters) for i in range(length))\<close>\<close>

fun random_join :: "nat \<Rightarrow> nat stream \<Rightarrow> string \<times> nat stream" where
  "random_join 0 s = ([], s)"
| "random_join (Suc n) s =
     (case random_choice characters s of (c, s') \<Rightarrow>
        (case random_join n s' of (cs, s'') \<Rightarrow> (c # cs, s'')))"

text \<open>
  \<open>generate_short_code(length = 6)\<close>. The loop \<open>while True\<close> has no bound, so the
  function is partial: \<open>None\<close> is the run that never returns. \<open>range(length)\<close> is
  empty for a negative \<open>length\<close>, hence \<open>nat len\<close> draws. The local variables
  \<open>short_code\<close> and \<open>url_info\<close> of the source are \<open>code\<close> and \<open>info\<close> throughout,
  since \<open>short_code\<close> is a field of \<open>URLInfo\<close>.
\<close>

partial_function (option) generate_short_code :: "world \<Rightarrow> int \<Rightarrow> (string \<times> world) option" where
  "generate_short_code w len =
     (case random_join (nat len) (rng w) of (code, s') \<Rightarrow>
        if map_of (fake_db w) code = None
        then Some (code, w\<lparr>rng := s'\<rparr>)
        else generate_short_code (w\<lparr>rng := s'\<rparr>) len)"

section \<open>The endpoints\<close>

text \<open>\<open>s.rstrip('/')\<close>: every trailing \<open>/\<close> is removed.\<close>

definition rstrip_slash :: "string \<Rightarrow> string" where
  "rstrip_slash s = rev (dropWhile (\<lambda>c. c = CHR ''/'') (rev s))"

text \<open>
  \<open>shorten_url(url_create, request)\<close>, with \<open>url_create.long_url\<close> and
  \<open>str(request.base_url)\<close> as arguments. The \<open>for\<close> loop returns at the first entry
  whose \<open>long_url\<close> equals the argument, which is \<open>find\<close>. \<open>None\<close> is the run in
  which the generator never returns.
\<close>

definition shorten_url :: "world \<Rightarrow> url \<Rightarrow> string \<Rightarrow> (URLShortened \<times> world) option" where
  "shorten_url w url request_base_url =
     (case find (\<lambda>(code, info). long_url info = url) (fake_db w) of
        Some (code, info) \<Rightarrow>
          (let base_url = rstrip_slash request_base_url
           in Some (URLShortened url code (base_url @ ''/'' @ code), w))
      | None \<Rightarrow>
          (case generate_short_code w 6 of
             None \<Rightarrow> None
           | Some (code, w1) \<Rightarrow>
               (let base_url = rstrip_slash request_base_url;
                    short_url_full = base_url @ ''/'' @ code;
                    info = \<lparr>id_str = shd (uuids w1), long_url = url,
                                short_code = code, short_url = short_url_full,
                                clicks = 0\<rparr>;
                    w2 = w1\<lparr>fake_db := setitem (fake_db w1) code info,
                            uuids := stl (uuids w1)\<rparr>
                in Some (URLShortened url code short_url_full, w2))))"

text \<open>
  \<open>redirect_to_long_url(short_code)\<close>. The exception is raised before anything is
  written, so the state comes back unchanged with it. \<open>url_info.clicks += 1\<close> writes to
  the object stored under the key.
\<close>

definition redirect_to_long_url :: "world \<Rightarrow> string \<Rightarrow> (error + RedirectResponse) \<times> world" where
  "redirect_to_long_url w code =
     (case map_of (fake_db w) code of
        None \<Rightarrow> (Inl (HTTPException HTTP_404_NOT_FOUND ''URL corta no encontrada''), w)
      | Some info \<Rightarrow>
          (let info' = info\<lparr>clicks := clicks info + 1\<rparr>
           in (Inr (RedirectResponse (long_url info') HTTP_307_TEMPORARY_REDIRECT),
               w\<lparr>fake_db := setitem (fake_db w) code info'\<rparr>)))"

text \<open>\<open>get_all_urls()\<close>: \<open>list(fake_db.values())\<close>\<close>

definition get_all_urls :: "world \<Rightarrow> URLInfo list \<times> world" where
  "get_all_urls w = (map snd (fake_db w), w)"

text \<open>\<open>get_url_stats(short_code)\<close>\<close>

definition get_url_stats :: "world \<Rightarrow> string \<Rightarrow> (error + URLInfo) \<times> world" where
  "get_url_stats w code =
     (case map_of (fake_db w) code of
        None \<Rightarrow> (Inl (HTTPException HTTP_404_NOT_FOUND ''URL corta no encontrada''), w)
      | Some info \<Rightarrow> (Inr info, w))"

section \<open>Serving requests\<close>

text \<open>
  The process serves one request after another. \<open>handle\<close> dispatches a request to its
  endpoint and \<open>run\<close> serves a list of requests in order; both are \<open>None\<close> when an
  endpoint does not return.
\<close>

datatype request = Shorten url string | Redirect string | GetAll | Stats string

datatype response =
    Shortened URLShortened
  | Redirected RedirectResponse
  | Listing "URLInfo list"
  | Info URLInfo

fun handle :: "world \<Rightarrow> request \<Rightarrow> ((error + response) \<times> world) option" where
  "handle w (Shorten url base) =
     (case shorten_url w url base of
        None \<Rightarrow> None
      | Some (r, w') \<Rightarrow> Some (Inr (Shortened r), w'))"
| "handle w (Redirect code) =
     (case redirect_to_long_url w code of
        (Inl e, w') \<Rightarrow> Some (Inl e, w')
      | (Inr r, w') \<Rightarrow> Some (Inr (Redirected r), w'))"
| "handle w GetAll =
     (case get_all_urls w of (infos, w') \<Rightarrow> Some (Inr (Listing infos), w'))"
| "handle w (Stats code) =
     (case get_url_stats w code of
        (Inl e, w') \<Rightarrow> Some (Inl e, w')
      | (Inr info, w') \<Rightarrow> Some (Inr (Info info), w'))"

fun run :: "world \<Rightarrow> request list \<Rightarrow> ((error + response) list \<times> world) option" where
  "run w [] = Some ([], w)"
| "run w (q # qs) =
     (case handle w q of
        None \<Rightarrow> None
      | Some (r, w') \<Rightarrow>
          (case run w' qs of
             None \<Rightarrow> None
           | Some (rs, w'') \<Rightarrow> Some (r # rs, w'')))"

text \<open>The states the process can be in: it starts with \<open>fake_db = {}\<close>.\<close>

inductive reachable :: "world \<Rightarrow> bool" where
  start: "fake_db w = [] \<Longrightarrow> reachable w"
| serve: "reachable w \<Longrightarrow> handle w q = Some (r, w') \<Longrightarrow> reachable w'"

text \<open>The responses of \<open>shorten_url\<close> among a list of results, in order.\<close>

fun shortened :: "(error + response) list \<Rightarrow> URLShortened list" where
  "shortened [] = []"
| "shortened (Inr (Shortened r) # rs) = r # shortened rs"
| "shortened (_ # rs) = shortened rs"

text \<open>The long URLs submitted to \<open>shorten_url\<close> among a list of requests, in order.\<close>

fun submitted :: "request list \<Rightarrow> url list" where
  "submitted [] = []"
| "submitted (Shorten url base # qs) = url # submitted qs"
| "submitted (_ # qs) = submitted qs"

text \<open>
  The \<open>k\<close>-th candidate the generator draws from a stream, \<open>n\<close> characters at a time
  (the first candidate is number 0).
\<close>

definition candidate :: "nat \<Rightarrow> nat stream \<Rightarrow> nat \<Rightarrow> string" where
  "candidate n s k = fst (random_join n (sdrop (k * n) s))"

text \<open>What every dictionary of the program satisfies.\<close>

definition keys_agree :: "db \<Rightarrow> bool" where
  "keys_agree d = list_all (\<lambda>(k, info). short_code info = k) d"

definition wf_db :: "db \<Rightarrow> bool" where
  "wf_db d = (distinct (map fst d) \<and> keys_agree d \<and> distinct (map (\<lambda>(k, info). long_url info) d))"

section \<open>Example states\<close>

text \<open>
  Concrete states on which the theorems below are run. The identifiers are \<open>u\<close>,
  \<open>0u\<close>, \<open>00u\<close> and so on. In \<open>example_start\<close> the random source draws index 0
  twelve times and index 1 from then on, so the generator proposes \<open>aaaaaa\<close> twice and
  \<open>bbbbbb\<close> afterwards; in \<open>stuck_start\<close> it draws index 0 for ever.
\<close>

primcorec always :: "'a \<Rightarrow> 'a stream" where
  "shd (always x) = x"
| "stl (always x) = always x"

definition example_uuids :: "string stream" where
  "example_uuids = siterate (\<lambda>s. CHR ''0'' # s) ''u''"

definition example_start :: world where
  "example_start = \<lparr>fake_db = [], rng = replicate 12 0 @- always 1, uuids = example_uuids\<rparr>"

definition stuck_start :: world where
  "stuck_start = \<lparr>fake_db = [], rng = always 0, uuids = example_uuids\<rparr>"

definition info_a :: URLInfo where
  "info_a = \<lparr>id_str = ''u'', long_url = ''https://example.com/a'', short_code = ''aaaaaa'',
             short_url = ''http://testserver/aaaaaa'', clicks = 0\<rparr>"

definition info_b :: URLInfo where
  "info_b = \<lparr>id_str = ''0u'', long_url = ''https://example.com/b'', short_code = ''bbbbbb'',
             short_url = ''http://testserver/bbbbbb'', clicks = 0\<rparr>"

text \<open>\<open>example_start\<close> after \<open>https://example.com/a\<close> has been shortened.\<close>

definition example_one :: world where
  "example_one = \<lparr>fake_db = [(''aaaaaa'', info_a)], rng = replicate 6 0 @- always 1,
                  uuids = stl example_uuids\<rparr>"

text \<open>\<open>example_one\<close> after \<open>https://example.com/b\<close> has been shortened as well.\<close>

definition example_two :: world where
  "example_two = \<lparr>fake_db = [(''aaaaaa'', info_a), (''bbbbbb'', info_b)], rng = always 1,
                  uuids = stl (stl example_uuids)\<rparr>"

text \<open>\<open>stuck_start\<close> after \<open>https://example.com/a\<close> has been shortened.\<close>

definition stuck_one :: world where
  "stuck_one = \<lparr>fake_db = [(''aaaaaa'', info_a)], rng = always 0, uuids = stl example_uuids\<rparr>"

text \<open>\<open>example_one\<close> after two redirects through \<open>aaaaaa\<close>.\<close>

definition example_clicked :: world where
  "example_clicked = example_one\<lparr>fake_db := [(''aaaaaa'', info_a\<lparr>clicks := 2\<rparr>)]\<rparr>"

section \<open>Facts about the dictionary and the generator\<close>

lemma map_of_setitem: "map_of (setitem d k v) = (map_of d)(k \<mapsto> v)"
  by (induction d) auto

lemma keys_setitem: "keys (setitem d k v) = insert k (keys d)"
  by (induction d) (auto simp: keys_def)

lemma setitem_fresh: "map_of d k = None \<Longrightarrow> setitem d k v = d @ [(k, v)]"
  by (induction d) (auto split: if_splits)

lemma map_fst_setitem_present: "map_of d k = Some v0 \<Longrightarrow> map fst (setitem d k v) = map fst d"
  by (induction d) (auto split: if_splits)

lemma map_of_None_keys: "map_of d k = None \<longleftrightarrow> k \<notin> keys d"
  by (simp add: keys_def map_of_eq_None_iff)

lemma length_characters: "length characters = 62"
  by (simp add: characters_def ascii_letters_def ascii_lowercase_def ascii_uppercase_def digits_def)

lemma distinct_characters: "distinct characters"
  by (simp add: characters_def ascii_letters_def ascii_lowercase_def ascii_uppercase_def digits_def)

lemma random_join_eq:
  "random_join n s = (map (\<lambda>r. characters ! (r mod length characters)) (stake n s), sdrop n s)"
  by (induction n arbitrary: s) (auto simp: random_choice_def)

lemma candidate_eq:
  "candidate n s k = map (\<lambda>r. characters ! (r mod length characters)) (stake n (sdrop (k * n) s))"
  by (simp add: candidate_def random_join_eq)

lemma candidate_Suc: "candidate n s (Suc k) = candidate n (sdrop n s) k"
  by (simp add: candidate_def add.commute)

lemma length_candidate: "length (candidate n s k) = n"
  by (simp add: candidate_eq)

lemma set_candidate: "set (candidate n s k) \<subseteq> set characters"
  by (auto simp: candidate_eq length_characters)

lemma generate_hit:
  "candidate (nat len) (rng w) 0 \<notin> keys (fake_db w) \<Longrightarrow>
   generate_short_code w len = Some (candidate (nat len) (rng w) 0, w\<lparr>rng := sdrop (nat len) (rng w)\<rparr>)"
  by (subst generate_short_code.simps) (simp add: candidate_def random_join_eq map_of_None_keys)

lemma generate_miss:
  "candidate (nat len) (rng w) 0 \<in> keys (fake_db w) \<Longrightarrow>
   generate_short_code w len = generate_short_code (w\<lparr>rng := sdrop (nat len) (rng w)\<rparr>) len"
  by (subst generate_short_code.simps) (simp add: candidate_def random_join_eq map_of_None_keys)

lemma generate_first_free:
  "candidate (nat len) (rng w) k \<notin> keys (fake_db w) \<Longrightarrow>
   (\<forall>j<k. candidate (nat len) (rng w) j \<in> keys (fake_db w)) \<Longrightarrow>
   generate_short_code w len =
     Some (candidate (nat len) (rng w) k, w\<lparr>rng := sdrop (Suc k * nat len) (rng w)\<rparr>)"
proof (induction k arbitrary: w)
  case 0
  then show ?case by (simp add: generate_hit)
next
  case (Suc k)
  let ?w = "w\<lparr>rng := sdrop (nat len) (rng w)\<rparr>"
  from Suc.prems(2) have miss: "candidate (nat len) (rng w) 0 \<in> keys (fake_db w)"
    by blast
  have free: "candidate (nat len) (rng ?w) k \<notin> keys (fake_db ?w)"
    using Suc.prems(1) by (simp add: candidate_Suc)
  have busy: "\<forall>j<k. candidate (nat len) (rng ?w) j \<in> keys (fake_db ?w)"
  proof (intro allI impI)
    fix j assume "j < k"
    then have "Suc j < Suc k" by simp
    with Suc.prems(2) have "candidate (nat len) (rng w) (Suc j) \<in> keys (fake_db w)"
      by blast
    then show "candidate (nat len) (rng ?w) j \<in> keys (fake_db ?w)"
      by (simp add: candidate_Suc)
  qed
  have "generate_short_code w len = generate_short_code ?w len"
    by (rule generate_miss [OF miss])
  also have "\<dots> = Some (candidate (nat len) (rng ?w) k, ?w\<lparr>rng := sdrop (Suc k * nat len) (rng ?w)\<rparr>)"
    by (rule Suc.IH [OF free busy])
  also have "\<dots> = Some (candidate (nat len) (rng w) (Suc k), w\<lparr>rng := sdrop (Suc (Suc k) * nat len) (rng w)\<rparr>)"
    by (simp add: candidate_Suc add.commute)
  finally show ?case .
qed

lemma generate_Some_free:
  assumes "generate_short_code w len = Some y"
  shows "\<exists>k. candidate (nat len) (rng w) k \<notin> keys (fake_db w)"
proof -
  have step: "\<exists>k. candidate (nat len) (rng w) k \<notin> keys (fake_db w)"
    if IH: "\<And>w len y. gen w len = Some y \<Longrightarrow> \<exists>k. candidate (nat len) (rng w) k \<notin> keys (fake_db w)"
    and body: "(case random_join (nat len) (rng w) of
                  (code, s') \<Rightarrow>
                    if map_of (fake_db w) code = None then Some (code, w\<lparr>rng := s'\<rparr>)
                    else gen (w\<lparr>rng := s'\<rparr>) len) = Some y"
    for gen :: "world \<Rightarrow> int \<Rightarrow> (string \<times> world) option" and w len y
  proof (cases "candidate (nat len) (rng w) 0 \<in> keys (fake_db w)")
    case False
    then show ?thesis by blast
  next
    case True
    with body have "gen (w\<lparr>rng := sdrop (nat len) (rng w)\<rparr>) len = Some y"
      by (simp add: candidate_def random_join_eq map_of_None_keys)
    from IH [OF this] obtain k where
      "candidate (nat len) (sdrop (nat len) (rng w)) k \<notin> keys (fake_db w)"
      by auto
    then have "candidate (nat len) (rng w) (Suc k) \<notin> keys (fake_db w)"
      by (simp add: candidate_Suc)
    then show ?thesis by blast
  qed
  from step assms show ?thesis
    by (rule generate_short_code.raw_induct
          [where P = "\<lambda>w len y. \<exists>k. candidate (nat len) (rng w) k \<notin> keys (fake_db w)"])
qed

lemma generate_Some_iff:
  "generate_short_code w len = Some (c, w') \<longleftrightarrow>
   (\<exists>k. candidate (nat len) (rng w) k \<notin> keys (fake_db w) \<and>
        (\<forall>j<k. candidate (nat len) (rng w) j \<in> keys (fake_db w)) \<and>
        c = candidate (nat len) (rng w) k \<and>
        w' = w\<lparr>rng := sdrop (Suc k * nat len) (rng w)\<rparr>)"
  (is "?L \<longleftrightarrow> ?R")
proof
  assume ?L
  then obtain k0 where "candidate (nat len) (rng w) k0 \<notin> keys (fake_db w)"
    using generate_Some_free by blast
  define k where "k = (LEAST k. candidate (nat len) (rng w) k \<notin> keys (fake_db w))"
  have free: "candidate (nat len) (rng w) k \<notin> keys (fake_db w)"
    unfolding k_def by (rule LeastI [of "\<lambda>k. candidate (nat len) (rng w) k \<notin> keys (fake_db w)", OF \<open>candidate (nat len) (rng w) k0 \<notin> keys (fake_db w)\<close>])
  have busy: "\<forall>j<k. candidate (nat len) (rng w) j \<in> keys (fake_db w)"
    unfolding k_def using not_less_Least by blast
  from generate_first_free [OF free busy] \<open>?L\<close> show ?R
    using free busy by auto
next
  assume ?R
  then show ?L using generate_first_free by blast
qed

lemma generate_None_iff:
  "generate_short_code w len = None \<longleftrightarrow> (\<forall>k. candidate (nat len) (rng w) k \<in> keys (fake_db w))"
proof
  assume "generate_short_code w len = None"
  show "\<forall>k. candidate (nat len) (rng w) k \<in> keys (fake_db w)"
  proof (rule ccontr)
    assume "\<not> (\<forall>k. candidate (nat len) (rng w) k \<in> keys (fake_db w))"
    then obtain k0 where k0: "candidate (nat len) (rng w) k0 \<notin> keys (fake_db w)" by blast
    define k where "k = (LEAST k. candidate (nat len) (rng w) k \<notin> keys (fake_db w))"
    have free: "candidate (nat len) (rng w) k \<notin> keys (fake_db w)"
      unfolding k_def by (rule LeastI [of "\<lambda>k. candidate (nat len) (rng w) k \<notin> keys (fake_db w)", OF k0])
    have busy: "\<forall>j<k. candidate (nat len) (rng w) j \<in> keys (fake_db w)"
      unfolding k_def using not_less_Least by blast
    from generate_first_free [OF free busy] \<open>generate_short_code w len = None\<close> show False by simp
  qed
next
  assume "\<forall>k. candidate (nat len) (rng w) k \<in> keys (fake_db w)"
  then show "generate_short_code w len = None"
    using generate_Some_free [of w len] by (cases "generate_short_code w len") auto
qed

subsection \<open>The generator on the example states\<close>

lemma characters_nth_0: "characters ! 0 = CHR ''a''"
  by (simp add: characters_def ascii_letters_def ascii_lowercase_def)

lemma characters_nth_1: "characters ! Suc 0 = CHR ''b''"
  by (simp add: characters_def ascii_letters_def ascii_lowercase_def)

lemma replicate_6: "replicate 6 x = [x, x, x, x, x, x]"
  by (simp add: numeral_eq_Suc)

lemma stake_always: "stake n (always x) = replicate n x"
  by (induction n) simp_all

lemma sdrop_always: "sdrop n (always x) = always x"
  by (induction n) simp_all

lemma candidate_always_0: "candidate 6 (always 0) k = ''aaaaaa''"
  unfolding candidate_eq sdrop_always stake_always replicate_6
  by (simp add: length_characters characters_nth_0)

lemma candidate_always_1: "candidate 6 (always 1) k = ''bbbbbb''"
  unfolding candidate_eq sdrop_always stake_always replicate_6
  by (simp add: length_characters characters_nth_1)

lemma candidate_shift:
  "candidate n (replicate (m * n) x @- s) k =
     (if k < m then candidate n (always x) 0 else candidate n s (k - m))"
proof (induction m arbitrary: k)
  case 0
  then show ?case by simp
next
  case (Suc m)
  have drop: "sdrop n (replicate (Suc m * n) x @- s) = replicate (m * n) x @- s"
    by (simp add: sdrop_shift)
  show ?case
  proof (cases k)
    case 0
    then show ?thesis
      by (simp add: candidate_eq stake_shift stake_always)
  next
    case (Suc k')
    then show ?thesis
      using Suc.IH [of k'] by (simp only: candidate_Suc drop) simp
  qed
qed

lemma candidate_example_one:
  "candidate 6 (rng example_one) k = (if k = 0 then ''aaaaaa'' else ''bbbbbb'')"
proof -
  have "rng example_one = replicate (1 * 6) 0 @- always 1"
    by (simp add: example_one_def)
  then show ?thesis
    by (simp only: candidate_shift candidate_always_0 candidate_always_1) simp
qed

lemma keys_example_one: "keys (fake_db example_one) = {''aaaaaa''}"
  by (simp add: example_one_def keys_def)

lemma generate_example_one:
  "generate_short_code example_one 6 = Some (''bbbbbb'', example_one\<lparr>rng := always 1\<rparr>)"
proof -
  have free: "candidate (nat 6) (rng example_one) 1 \<notin> keys (fake_db example_one)"
    by (simp add: candidate_example_one keys_example_one)
  have busy: "\<forall>j<1. candidate (nat 6) (rng example_one) j \<in> keys (fake_db example_one)"
    by (simp add: candidate_example_one keys_example_one)
  have "sdrop (Suc 1 * nat 6) (rng example_one) = always 1"
    by (simp add: example_one_def sdrop_shift sdrop_always)
  with generate_first_free [OF free busy] show ?thesis
    by (simp add: candidate_example_one)
qed

subsection \<open>Writing to the dictionary\<close>

lemma setitem_present_urls:
  "map_of d k = Some v \<Longrightarrow> long_url v' = long_url v \<Longrightarrow>
   map (\<lambda>(k, info). long_url info) (setitem d k v') = map (\<lambda>(k, info). long_url info) d"
  by (induction d) (auto split: if_splits)

lemma keys_agree_setitem:
  "keys_agree d \<Longrightarrow> short_code v = k \<Longrightarrow> keys_agree (setitem d k v)"
  by (induction d) (auto simp: keys_agree_def)

lemma wf_db_setitem_new:
  assumes "wf_db d" "map_of d k = None" "short_code v = k"
    and "find (\<lambda>(code, info). long_url info = long_url v) d = None"
  shows "wf_db (setitem d k v)"
proof -
  have "k \<notin> fst ` set d"
    using assms(2) by (simp add: map_of_eq_None_iff)
  moreover have "\<forall>p\<in>set d. long_url (snd p) \<noteq> long_url v"
    using assms(4) unfolding find_None_iff by auto
  then have "long_url v \<notin> set (map (\<lambda>(k, info). long_url info) d)"
    by (force simp: case_prod_beta)
  ultimately show ?thesis
    using assms(1,2,3) by (simp add: wf_db_def setitem_fresh keys_agree_def)
qed

lemma wf_db_setitem_present:
  assumes "wf_db d" "map_of d k = Some v" "short_code v' = k" "long_url v' = long_url v"
  shows "wf_db (setitem d k v')"
  using assms
  by (simp add: wf_db_def map_fst_setitem_present setitem_present_urls keys_agree_setitem)

lemma keys_agree_map_of: "keys_agree d \<Longrightarrow> map_of d k = Some v \<Longrightarrow> short_code v = k"
  by (induction d) (auto simp: keys_agree_def split: if_splits)

subsection \<open>The two paths of \<open>shorten_url\<close>\<close>

lemma shorten_url_found:
  "find (\<lambda>(code, info). long_url info = u) (fake_db w) = Some (k, v) \<Longrightarrow>
   shorten_url w u b = Some (URLShortened u k (rstrip_slash b @ ''/'' @ k), w)"
  by (simp add: shorten_url_def)

lemma shorten_url_new:
  "find (\<lambda>(code, info). long_url info = u) (fake_db w) = None \<Longrightarrow>
   generate_short_code w 6 = Some (c, w1) \<Longrightarrow>
   shorten_url w u b =
     Some (URLShortened u c (rstrip_slash b @ ''/'' @ c),
           w1\<lparr>fake_db := setitem (fake_db w1) c
                  \<lparr>id_str = shd (uuids w1), long_url = u, short_code = c,
                   short_url = rstrip_slash b @ ''/'' @ c, clicks = 0\<rparr>,
              uuids := stl (uuids w1)\<rparr>)"
  by (simp add: shorten_url_def Let_def)

lemma shorten_url_stuck:
  "find (\<lambda>(code, info). long_url info = u) (fake_db w) = None \<Longrightarrow>
   generate_short_code w 6 = None \<Longrightarrow> shorten_url w u b = None"
  by (simp add: shorten_url_def)

lemma shorten_url_cases:
  assumes "shorten_url w u b = Some (r, w')"
  obtains (found) k v where
      "find (\<lambda>(code, info). long_url info = u) (fake_db w) = Some (k, v)"
      "r = URLShortened u k (rstrip_slash b @ ''/'' @ k)" "w' = w"
  | (new) c w1 where
      "find (\<lambda>(code, info). long_url info = u) (fake_db w) = None"
      "generate_short_code w 6 = Some (c, w1)"
      "r = URLShortened u c (rstrip_slash b @ ''/'' @ c)"
      "w' = w1\<lparr>fake_db := setitem (fake_db w1) c
                  \<lparr>id_str = shd (uuids w1), long_url = u, short_code = c,
                   short_url = rstrip_slash b @ ''/'' @ c, clicks = 0\<rparr>,
              uuids := stl (uuids w1)\<rparr>"
proof (cases "find (\<lambda>(code, info). long_url info = u) (fake_db w)")
  case None
  show ?thesis
  proof (cases "generate_short_code w 6")
    case gNone: None
    with None assms show ?thesis by (simp add: shorten_url_stuck)
  next
    case (Some p)
    obtain c w1 where p: "p = (c, w1)" by (cases p)
    from shorten_url_new [OF None Some [unfolded p], of b] assms new [OF None Some [unfolded p]]
    show ?thesis by simp
  qed
next
  case (Some p)
  obtain k v where p: "p = (k, v)" by (cases p)
  from shorten_url_found [OF Some [unfolded p], of b] assms found [OF Some [unfolded p]]
  show ?thesis by simp
qed

lemma generate_fresh:
  assumes "generate_short_code w len = Some (c, w1)"
  shows "map_of (fake_db w) c = None" "fake_db w1 = fake_db w" "uuids w1 = uuids w"
  using assms unfolding generate_Some_iff by (auto simp: map_of_None_keys)

subsection \<open>The invariant\<close>

lemma wf_db_shorten_url:
  assumes "wf_db (fake_db w)" "shorten_url w u b = Some (r, w')"
  shows "wf_db (fake_db w')"
  using assms(2)
proof (cases rule: shorten_url_cases)
  case (found k v)
  with assms(1) show ?thesis by simp
next
  case (new c w1)
  from generate_fresh [OF new(2)] have "map_of (fake_db w) c = None" "fake_db w1 = fake_db w"
    by simp_all
  with new(1,4) assms(1) show ?thesis
    by (simp add: wf_db_setitem_new)
qed

lemma wf_db_redirect:
  assumes "wf_db (fake_db w)" "redirect_to_long_url w c = (r, w')"
  shows "wf_db (fake_db w')"
proof (cases "map_of (fake_db w) c")
  case None
  with assms show ?thesis by (simp add: redirect_to_long_url_def)
next
  case (Some v)
  have "keys_agree (fake_db w)"
    using assms(1) by (simp add: wf_db_def)
  then have "short_code v = c"
    using Some by (rule keys_agree_map_of)
  then have "wf_db (setitem (fake_db w) c (v\<lparr>clicks := clicks v + 1\<rparr>))"
    using assms(1) Some by (simp add: wf_db_setitem_present)
  with assms(2) Some show ?thesis
    by (auto simp: redirect_to_long_url_def)
qed

lemma get_url_stats_world: "snd (get_url_stats w c) = w"
  by (simp add: get_url_stats_def split: option.splits)

lemma wf_db_handle:
  assumes "wf_db (fake_db w)" "handle w q = Some (r, w')"
  shows "wf_db (fake_db w')"
proof (cases q)
  case (Shorten u b)
  with assms show ?thesis
    by (auto split: option.splits dest: wf_db_shorten_url)
next
  case (Redirect c)
  with assms show ?thesis
    by (auto split: prod.splits sum.splits dest: wf_db_redirect)
next
  case GetAll
  with assms show ?thesis by (simp add: get_all_urls_def)
next
  case (Stats c)
  with assms get_url_stats_world [of w c] show ?thesis
    by (auto split: prod.splits sum.splits)
qed

lemma reachable_wf_db: "reachable w \<Longrightarrow> wf_db (fake_db w)"
proof (induction rule: reachable.induct)
  case (start w)
  then show ?case by (simp add: wf_db_def keys_agree_def)
next
  case (serve w q r w')
  then show ?case by (blast intro: wf_db_handle)
qed

subsection \<open>The endpoints on the example states\<close>

lemma rstrip_slash_testserver: "rstrip_slash ''http://testserver/'' = ''http://testserver''"
  by (simp add: rstrip_slash_def)

lemma candidate_example_start:
  "candidate 6 (rng example_start) k = (if k < 2 then ''aaaaaa'' else ''bbbbbb'')"
proof -
  have "rng example_start = replicate (2 * 6) 0 @- always 1"
    by (simp add: example_start_def)
  then show ?thesis
    by (simp only: candidate_shift candidate_always_0 candidate_always_1)
qed

lemma generate_example_start:
  "generate_short_code example_start 6 =
     Some (''aaaaaa'', example_start\<lparr>rng := replicate 6 0 @- always 1\<rparr>)"
proof -
  have free: "candidate (nat 6) (rng example_start) 0 \<notin> keys (fake_db example_start)"
    by (simp add: example_start_def keys_def)
  have "sdrop (nat 6) (rng example_start) = replicate 6 0 @- always 1"
    by (simp add: example_start_def sdrop_shift)
  with generate_hit [OF free] show ?thesis
    by (simp add: candidate_example_start)
qed

lemma shorten_example_start:
  "shorten_url example_start ''https://example.com/a'' ''http://testserver/'' =
     Some (URLShortened ''https://example.com/a'' ''aaaaaa'' ''http://testserver/aaaaaa'',
           example_one)"
proof -
  have "find (\<lambda>(code, info). long_url info = ''https://example.com/a'') (fake_db example_start) = None"
    by (simp add: example_start_def)
  from shorten_url_new [OF this generate_example_start, of "''http://testserver/''"]
  show ?thesis
    by (simp add: rstrip_slash_testserver example_start_def example_one_def info_a_def
        example_uuids_def)
qed

lemma shorten_example_one:
  "shorten_url example_one ''https://example.com/b'' ''http://testserver/'' =
     Some (URLShortened ''https://example.com/b'' ''bbbbbb'' ''http://testserver/bbbbbb'',
           example_two)"
proof -
  have "find (\<lambda>(code, info). long_url info = ''https://example.com/b'') (fake_db example_one) = None"
    by (simp add: example_one_def info_a_def)
  from shorten_url_new [OF this generate_example_one, of "''http://testserver/''"]
  show ?thesis
    by (simp add: rstrip_slash_testserver example_one_def example_two_def info_b_def
        example_uuids_def)
qed

lemma reachable_example_start: "reachable example_start"
  by (rule reachable.start) (simp add: example_start_def)

lemma reachable_example_one: "reachable example_one"
proof -
  have "handle example_start (Shorten ''https://example.com/a'' ''http://testserver/'') =
          Some (Inr (Shortened (URLShortened ''https://example.com/a'' ''aaaaaa''
                  ''http://testserver/aaaaaa'')), example_one)"
    by (simp add: shorten_example_start)
  with reachable_example_start show ?thesis by (rule reachable.serve)
qed

lemma map_of_example_two:
  "map_of (fake_db example_two) ''aaaaaa'' = Some info_a"
  "map_of (fake_db example_two) ''bbbbbb'' = Some info_b"
  "map_of (fake_db example_two) ''ZZZZZZ'' = None"
  by (simp_all add: example_two_def)

lemma keys_example_two: "keys (fake_db example_two) = {''aaaaaa'', ''bbbbbb''}"
  by (auto simp: example_two_def keys_def)

subsection \<open>What a request does to one entry\<close>

lemma find_SomeD: "find P xs = Some x \<Longrightarrow> x \<in> set xs \<and> P x"
  by (induction xs) (auto split: if_splits)

lemma redirect_present:
  "map_of (fake_db w) c = Some v \<Longrightarrow>
   redirect_to_long_url w c =
     (Inr (RedirectResponse (long_url v) HTTP_307_TEMPORARY_REDIRECT),
      w\<lparr>fake_db := setitem (fake_db w) c (v\<lparr>clicks := clicks v + 1\<rparr>)\<rparr>)"
  by (simp add: redirect_to_long_url_def)

lemma redirect_absent:
  "map_of (fake_db w) c = None \<Longrightarrow> redirect_to_long_url w c = (Inl NotFound, w)"
  by (simp add: redirect_to_long_url_def NotFound_def)

lemma get_url_stats_present:
  "map_of (fake_db w) c = Some v \<Longrightarrow> get_url_stats w c = (Inr v, w)"
  by (simp add: get_url_stats_def)

lemma get_url_stats_absent:
  "map_of (fake_db w) c = None \<Longrightarrow> get_url_stats w c = (Inl NotFound, w)"
  by (simp add: get_url_stats_def NotFound_def)

lemma handle_cases:
  assumes "handle w q = Some (r, w')"
  obtains
    (Shorten) u b x where "q = Shorten u b" "shorten_url w u b = Some (x, w')"
      "r = Inr (Shortened x)"
  | (Redirect_hit) c v where "q = Redirect c" "map_of (fake_db w) c = Some v"
      "r = Inr (Redirected (RedirectResponse (long_url v) HTTP_307_TEMPORARY_REDIRECT))"
      "w' = w\<lparr>fake_db := setitem (fake_db w) c (v\<lparr>clicks := clicks v + 1\<rparr>)\<rparr>"
  | (Redirect_miss) c where "q = Redirect c" "map_of (fake_db w) c = None"
      "r = Inl NotFound" "w' = w"
  | (GetAll) "q = GetAll" "r = Inr (Listing (map snd (fake_db w)))" "w' = w"
  | (Stats_hit) c v where "q = Stats c" "map_of (fake_db w) c = Some v"
      "r = Inr (Info v)" "w' = w"
  | (Stats_miss) c where "q = Stats c" "map_of (fake_db w) c = None"
      "r = Inl NotFound" "w' = w"
proof (cases q)
  case (Shorten u b)
  show ?thesis
  proof (cases "shorten_url w u b")
    case None
    with assms Shorten show ?thesis by simp
  next
    case (Some p)
    obtain x w1 where "p = (x, w1)" by (cases p)
    with assms Shorten Some show ?thesis
      by (intro that(1) [of u b x]) simp_all
  qed
next
  case (Redirect c)
  show ?thesis
  proof (cases "map_of (fake_db w) c")
    case None
    with assms Redirect show ?thesis
      by (intro that(3) [of c]) (simp_all add: redirect_absent)
  next
    case (Some v)
    with assms Redirect show ?thesis
      by (intro that(2) [of c v]) (simp_all add: redirect_present)
  qed
next
  case GetAll
  with assms show ?thesis
    by (intro that(4)) (auto simp: get_all_urls_def)
next
  case (Stats c)
  show ?thesis
  proof (cases "map_of (fake_db w) c")
    case None
    with assms Stats show ?thesis
      by (intro that(6) [of c]) (simp_all add: get_url_stats_absent)
  next
    case (Some v)
    with assms Stats show ?thesis
      by (intro that(5) [of c v]) (simp_all add: get_url_stats_present)
  qed
qed

lemma shorten_url_entry:
  assumes "shorten_url w u b = Some (r, w')" "map_of (fake_db w) c = Some i"
  shows "map_of (fake_db w') c = Some i"
  using assms(1)
proof (cases rule: shorten_url_cases)
  case (found k v)
  with assms(2) show ?thesis by simp
next
  case (new c' w1)
  from generate_fresh [OF new(2)] assms(2) have "c' \<noteq> c" "fake_db w1 = fake_db w"
    by auto
  with new(4) assms(2) show ?thesis
    by (simp add: map_of_setitem)
qed

lemma handle_entry:
  assumes "handle w q = Some (r, w')" "map_of (fake_db w) c = Some i"
  shows "map_of (fake_db w') c =
           Some (i\<lparr>clicks := clicks i + (if q = Redirect c then 1 else 0)\<rparr>)"
  using assms(1)
proof (cases rule: handle_cases)
  case (Shorten u b x)
  from shorten_url_entry [OF Shorten(2) assms(2)] Shorten(1) show ?thesis by simp
next
  case (Redirect_hit c' v)
  with assms(2) show ?thesis by (auto simp: map_of_setitem)
next
  case (Redirect_miss c')
  with assms(2) show ?thesis by auto
next
  case GetAll
  with assms(2) show ?thesis by simp
next
  case (Stats_hit c' v)
  with assms(2) show ?thesis by simp
next
  case (Stats_miss c')
  with assms(2) show ?thesis by simp
qed

lemma run_Cons:
  assumes "run w (q # qs) = Some (rs, w'')"
  obtains r w' rs' where "handle w q = Some (r, w')" "run w' qs = Some (rs', w'')" "rs = r # rs'"
  using assms by (auto split: option.splits)

lemma run_entry:
  "run w qs = Some (rs, w') \<Longrightarrow> map_of (fake_db w) c = Some i \<Longrightarrow>
   map_of (fake_db w') c = Some (i\<lparr>clicks := clicks i + int (count_list qs (Redirect c))\<rparr>)"
proof (induction qs arbitrary: w rs i)
  case Nil
  then show ?case by simp
next
  case (Cons q qs)
  from Cons.prems(1) obtain r w1 rs' where
    h: "handle w q = Some (r, w1)" and t: "run w1 qs = Some (rs', w')"
    by (rule run_Cons)
  let ?i = "i\<lparr>clicks := clicks i + (if q = Redirect c then 1 else 0)\<rparr>"
  from handle_entry [OF h Cons.prems(2)] have "map_of (fake_db w1) c = Some ?i" .
  from Cons.IH [OF t this] show ?case
    by (simp add: add.assoc)
qed

subsection \<open>What a request does to the keys\<close>

lemma shorten_url_keys:
  assumes "shorten_url w u b = Some (r, w')"
  shows "keys (fake_db w') = insert (resp_short_code r) (keys (fake_db w))"
  using assms
proof (cases rule: shorten_url_cases)
  case (found k v)
  from find_SomeD [OF found(1)] have "(k, v) \<in> set (fake_db w)"
    by simp
  then have "k \<in> keys (fake_db w)"
    by (force simp: keys_def)
  with found show ?thesis by auto
next
  case (new c w1)
  from generate_fresh(2) [OF new(2)] new(3,4) show ?thesis
    by (simp add: keys_setitem)
qed

lemma handle_keys:
  assumes "handle w q = Some (r, w')"
  shows "keys (fake_db w') = keys (fake_db w) \<union> set (map resp_short_code (shortened [r]))"
  using assms
proof (cases rule: handle_cases)
  case (Shorten u b x)
  from shorten_url_keys [OF Shorten(2)] Shorten(3) show ?thesis by simp
next
  case (Redirect_hit c v)
  then have "c \<in> keys (fake_db w)"
    using map_of_None_keys [of "fake_db w" c] by auto
  with Redirect_hit show ?thesis by (auto simp: keys_setitem)
qed simp_all

lemma shortened_Cons: "shortened (r # rs) = shortened [r] @ shortened rs"
  by (cases "(r # rs)" rule: shortened.cases) auto

lemma run_keys:
  "run w qs = Some (rs, w') \<Longrightarrow>
   keys (fake_db w') = keys (fake_db w) \<union> set (map resp_short_code (shortened rs))"
proof (induction qs arbitrary: w rs)
  case Nil
  then show ?case by simp
next
  case (Cons q qs)
  from Cons.prems obtain r w1 rs' where
    h: "handle w q = Some (r, w1)" and t: "run w1 qs = Some (rs', w')" and rs: "rs = r # rs'"
    by (rule run_Cons)
  from handle_keys [OF h] Cons.IH [OF t] show ?case
    unfolding rs shortened_Cons [of r rs'] by auto
qed

subsection \<open>Runs and the invariant\<close>

lemma shorten_url_registered:
  assumes "distinct (map fst (fake_db w))" "shorten_url w u b = Some (r, w')"
  shows "resp_long_url r = u \<and>
         (\<exists>i. map_of (fake_db w') (resp_short_code r) = Some i \<and> long_url i = u)"
  using assms(2)
proof (cases rule: shorten_url_cases)
  case (found k v)
  from find_SomeD [OF found(1)] have "(k, v) \<in> set (fake_db w)" "long_url v = u"
    by simp_all
  with assms(1) have "map_of (fake_db w) k = Some v" by simp
  with found \<open>long_url v = u\<close> show ?thesis by simp
next
  case (new c w1)
  then show ?thesis by (simp add: map_of_setitem)
qed

lemma shorten_url_fresh_entry:
  assumes "find (\<lambda>(code, info). long_url info = u) (fake_db w) = None"
    and "shorten_url w u b = Some (r, w')"
  shows "resp_short_code r \<notin> keys (fake_db w) \<and>
         (\<exists>i. map_of (fake_db w') (resp_short_code r) = Some i \<and> clicks i = 0 \<and>
              long_url i = u \<and> short_code i = resp_short_code r)"
  using assms(2)
proof (cases rule: shorten_url_cases)
  case (found k v)
  with assms(1) show ?thesis by simp
next
  case (new c w1)
  from generate_fresh(1) [OF new(2)] have "c \<notin> keys (fake_db w)"
    by (simp add: map_of_None_keys)
  with new show ?thesis by (simp add: map_of_setitem)
qed

lemma run_registered:
  "wf_db (fake_db w) \<Longrightarrow> run w qs = Some (rs, w') \<Longrightarrow>
   \<forall>r\<in>set (shortened rs).
      \<exists>i. map_of (fake_db w') (resp_short_code r) = Some i \<and> long_url i = resp_long_url r"
proof (induction qs arbitrary: w rs)
  case Nil
  then show ?case by simp
next
  case (Cons q qs)
  from Cons.prems(2) obtain x w1 rs' where
    h: "handle w q = Some (x, w1)" and t: "run w1 qs = Some (rs', w')" and rs: "rs = x # rs'"
    by (rule run_Cons)
  have wf1: "wf_db (fake_db w1)"
    using Cons.prems(1) h by (rule wf_db_handle)
  have tail: "\<forall>r\<in>set (shortened rs').
      \<exists>i. map_of (fake_db w') (resp_short_code r) = Some i \<and> long_url i = resp_long_url r"
    by (rule Cons.IH [OF wf1 t])
  have head: "\<forall>r\<in>set (shortened [x]).
      \<exists>i. map_of (fake_db w') (resp_short_code r) = Some i \<and> long_url i = resp_long_url r"
  proof
    fix r assume "r \<in> set (shortened [x])"
    then have x: "x = Inr (Shortened r)"
      by (cases "[x]" rule: shortened.cases) auto
    from h obtain u b where q: "q = Shorten u b" and s: "shorten_url w u b = Some (r, w1)"
      by (cases rule: handle_cases) (use x in simp_all)
    from Cons.prems(1) have "distinct (map fst (fake_db w))"
      by (simp add: wf_db_def)
    from shorten_url_registered [OF this s] obtain i where
      "map_of (fake_db w1) (resp_short_code r) = Some i" "long_url i = resp_long_url r"
      by auto
    with run_entry [OF t this(1)]
    show "\<exists>i. map_of (fake_db w') (resp_short_code r) = Some i \<and> long_url i = resp_long_url r"
      by simp
  qed
  from head tail show ?case
    unfolding rs shortened_Cons [of x rs'] by auto
qed

lemma run_submitted:
  "run w qs = Some (rs, w') \<Longrightarrow> map resp_long_url (shortened rs) = submitted qs"
proof (induction qs arbitrary: w rs)
  case Nil
  then show ?case by simp
next
  case (Cons q qs)
  from Cons.prems obtain x w1 rs' where
    h: "handle w q = Some (x, w1)" and t: "run w1 qs = Some (rs', w')" and rs: "rs = x # rs'"
    by (rule run_Cons)
  from h have "map resp_long_url (shortened [x]) = submitted [q]"
  proof (cases rule: handle_cases)
    case (Shorten u b r)
    from Shorten(2) have "resp_long_url r = u"
      by (cases rule: shorten_url_cases) simp_all
    with Shorten show ?thesis by simp
  qed simp_all
  moreover have "submitted (q # qs) = submitted [q] @ submitted qs"
    by (cases q) auto
  ultimately show ?case
    using Cons.IH [OF t] unfolding rs shortened_Cons [of x rs'] by simp
qed

subsection \<open>Lists, and runs on the example states\<close>

lemma find_append_None: "find P xs = None \<Longrightarrow> find P (xs @ ys) = find P ys"
  by (induction xs) (auto split: if_splits)

lemma filter_find_None: "find P xs = None \<Longrightarrow> filter P xs = []"
  by (induction xs) (auto split: if_splits)

lemma length_filter_distinct_map:
  "distinct (map f xs) \<Longrightarrow> x \<in> set xs \<Longrightarrow> length (filter (\<lambda>y. f y = f x) xs) = 1"
proof (induction xs)
  case Nil
  then show ?case by simp
next
  case (Cons y ys)
  show ?case
  proof (cases "f y = f x")
    case True
    from Cons.prems(1) have "f y \<notin> f ` set ys" by simp
    with True have "\<forall>z\<in>set ys. f z \<noteq> f x" by (metis imageI)
    then have "filter (\<lambda>y. f y = f x) ys = []"
      by (simp add: filter_empty_conv)
    with True show ?thesis by simp
  next
    case False
    with Cons.prems have "x \<in> set ys" "distinct (map f ys)" by auto
    with Cons.IH False show ?thesis by simp
  qed
qed

lemma run_example_one_b:
  "run example_one [Shorten ''https://example.com/b'' ''http://testserver/''] =
     Some ([Inr (Shortened (URLShortened ''https://example.com/b'' ''bbbbbb''
              ''http://testserver/bbbbbb''))], example_two)"
  by (simp add: shorten_example_one)

lemma run_example_clicks:
  "run example_one [Redirect ''aaaaaa'', Stats ''aaaaaa'', Redirect ''ZZZZZZ'', Redirect ''aaaaaa''] =
     Some ([Inr (Redirected (RedirectResponse ''https://example.com/a'' HTTP_307_TEMPORARY_REDIRECT)),
            Inr (Info (info_a\<lparr>clicks := 1\<rparr>)),
            Inl NotFound,
            Inr (Redirected (RedirectResponse ''https://example.com/a'' HTTP_307_TEMPORARY_REDIRECT))],
           example_clicked)"
  by (simp add: example_one_def example_clicked_def redirect_to_long_url_def get_url_stats_def
      NotFound_def info_a_def)

lemma find_example_start:
  "find (\<lambda>(code, info). long_url info = u) (fake_db example_start) = None"
  by (simp add: example_start_def)

subsection \<open>Whole runs, and the state in which the generator is stuck\<close>

lemma keys_agree_codes: "keys_agree d \<Longrightarrow> map (\<lambda>(k, info). short_code info) d = map fst d"
  by (induction d) (auto simp: keys_agree_def)

lemma keys_agree_values: "keys_agree d \<Longrightarrow> map short_code (map snd d) = map fst d"
  by (induction d) (auto simp: keys_agree_def)

lemma run_wf_db: "wf_db (fake_db w) \<Longrightarrow> run w qs = Some (rs, w') \<Longrightarrow> wf_db (fake_db w')"
proof (induction qs arbitrary: w rs)
  case Nil
  then show ?case by simp
next
  case (Cons q qs)
  from Cons.prems(2) obtain r w1 rs' where
    h: "handle w q = Some (r, w1)" and t: "run w1 qs = Some (rs', w')"
    by (rule run_Cons)
  from Cons.IH [OF wf_db_handle [OF Cons.prems(1) h] t] show ?case .
qed

lemma run_example_start_ab:
  "run example_start [Shorten ''https://example.com/a'' ''http://testserver/'',
                      Shorten ''https://example.com/b'' ''http://testserver/''] =
     Some ([Inr (Shortened (URLShortened ''https://example.com/a'' ''aaaaaa''
              ''http://testserver/aaaaaa'')),
            Inr (Shortened (URLShortened ''https://example.com/b'' ''bbbbbb''
              ''http://testserver/bbbbbb''))], example_two)"
  by (simp add: shorten_example_start shorten_example_one)

lemma fake_db_example_start: "fake_db example_start = []"
  by (simp add: example_start_def)

lemma generate_stuck_start:
  "generate_short_code stuck_start 6 = Some (''aaaaaa'', stuck_start)"
proof -
  have free: "candidate (nat 6) (rng stuck_start) 0 \<notin> keys (fake_db stuck_start)"
    by (simp add: stuck_start_def keys_def)
  have "sdrop (nat 6) (rng stuck_start) = always 0"
    by (simp add: stuck_start_def sdrop_always)
  moreover have "stuck_start\<lparr>rng := always 0\<rparr> = stuck_start"
    by (simp add: stuck_start_def)
  moreover have "candidate 6 (rng stuck_start) 0 = ''aaaaaa''"
    by (simp add: stuck_start_def candidate_always_0)
  ultimately show ?thesis
    using generate_hit [OF free] by simp
qed

lemma shorten_stuck_start:
  "shorten_url stuck_start ''https://example.com/a'' ''http://testserver/'' =
     Some (URLShortened ''https://example.com/a'' ''aaaaaa'' ''http://testserver/aaaaaa'',
           stuck_one)"
proof -
  have "find (\<lambda>(code, info). long_url info = ''https://example.com/a'') (fake_db stuck_start) = None"
    by (simp add: stuck_start_def)
  from shorten_url_new [OF this generate_stuck_start, of "''http://testserver/''"]
  show ?thesis
    by (simp add: rstrip_slash_testserver stuck_start_def stuck_one_def info_a_def
        example_uuids_def)
qed

lemma reachable_stuck_one: "reachable stuck_one"
proof -
  have "reachable stuck_start"
    by (rule reachable.start) (simp add: stuck_start_def)
  moreover have "handle stuck_start (Shorten ''https://example.com/a'' ''http://testserver/'') =
          Some (Inr (Shortened (URLShortened ''https://example.com/a'' ''aaaaaa''
                  ''http://testserver/aaaaaa'')), stuck_one)"
    by (simp add: shorten_stuck_start)
  ultimately show ?thesis by (rule reachable.serve)
qed

lemma generate_stuck_one: "generate_short_code stuck_one 6 = None"
  unfolding generate_None_iff
  by (simp add: stuck_one_def candidate_always_0 keys_def)

lemma shorten_stuck_one:
  "shorten_url stuck_one ''https://example.com/b'' ''http://testserver/'' = None"
proof -
  have "find (\<lambda>(code, info). long_url info = ''https://example.com/b'') (fake_db stuck_one) = None"
    by (simp add: stuck_one_def info_a_def)
  from shorten_url_stuck [OF this generate_stuck_one] show ?thesis .
qed

lemma shorten_url_returns_iff:
  "shorten_url w u b \<noteq> None \<longleftrightarrow>
     find (\<lambda>(code, info). long_url info = u) (fake_db w) \<noteq> None \<or>
     generate_short_code w 6 \<noteq> None"
proof (cases "find (\<lambda>(code, info). long_url info = u) (fake_db w)")
  case None
  show ?thesis
  proof (cases "generate_short_code w 6")
    case gNone: None
    from shorten_url_stuck [OF None gNone] None gNone show ?thesis by simp
  next
    case (Some p)
    obtain c w1 where "p = (c, w1)" by (cases p)
    with shorten_url_new [OF None, of c w1 b] Some None show ?thesis by simp
  qed
next
  case (Some p)
  obtain k v where "p = (k, v)" by (cases p)
  with shorten_url_found [of u w k v b] Some show ?thesis by simp
qed

section \<open>The claims\<close>

text \<open>
  C6. A code returned by \<open>generate_short_code()\<close> has exactly 6 characters, each one
  of the 62 distinct symbols of \<open>characters\<close> (lower-case letters, upper-case letters,
  digits). It is not a key of \<open>fake_db\<close> when it is returned, and the call leaves
  \<open>fake_db\<close> as it was. The loop retries until then: the code is the first candidate
  that is not a key, every earlier candidate is one, and the random source has advanced
  past exactly those candidates.
\<close>

theorem generate_short_code_contract:
  assumes "generate_short_code w 6 = Some (c, w')"
  shows "length c = 6 \<and> set c \<subseteq> set characters \<and>
         characters = ascii_lowercase @ ascii_uppercase @ digits \<and>
         length characters = 62 \<and> distinct characters \<and>
         c \<notin> keys (fake_db w') \<and>
         fake_db w' = fake_db w \<and> uuids w' = uuids w \<and>
         (\<exists>k. c = candidate 6 (rng w) k \<and>
              (\<forall>j<k. candidate 6 (rng w) j \<in> keys (fake_db w)) \<and>
              rng w' = sdrop (6 * Suc k) (rng w))"
proof -
  from assms obtain k where
    free: "candidate 6 (rng w) k \<notin> keys (fake_db w)" and
    busy: "\<forall>j<k. candidate 6 (rng w) j \<in> keys (fake_db w)" and
    c: "c = candidate 6 (rng w) k" and
    w': "w' = w\<lparr>rng := sdrop (Suc k * 6) (rng w)\<rparr>"
    unfolding generate_Some_iff by auto
  have "length c = 6" "set c \<subseteq> set characters"
    using c by (simp_all add: length_candidate set_candidate)
  moreover have "characters = ascii_lowercase @ ascii_uppercase @ digits"
    by (simp add: characters_def ascii_letters_def)
  moreover have "c \<notin> keys (fake_db w')" "fake_db w' = fake_db w" "uuids w' = uuids w"
    using free c w' by simp_all
  moreover have "rng w' = sdrop (6 * Suc k) (rng w)"
    using w' by (simp add: mult.commute)
  ultimately show ?thesis
    using busy c length_characters distinct_characters by blast
qed

theorem generate_short_code_contract_witness:
  "generate_short_code example_one 6 = Some (''bbbbbb'', example_one\<lparr>rng := always 1\<rparr>) \<and>
   length ''bbbbbb'' = 6 \<and> set ''bbbbbb'' \<subseteq> set characters \<and>
   ''bbbbbb'' \<notin> keys (fake_db (example_one\<lparr>rng := always 1\<rparr>)) \<and>
   fake_db (example_one\<lparr>rng := always 1\<rparr>) = fake_db example_one"
  using generate_short_code_contract [OF generate_example_one] generate_example_one
  by simp

text \<open>
  C5. \<open>redirect_to_long_url\<close> and \<open>get_url_stats\<close> raise the 404 exception exactly when
  the short code is not a key of \<open>fake_db\<close>, and they raise nothing else;
  \<open>shorten_url\<close> raises nothing: when it returns, it returns a response.
\<close>

theorem not_found_iff:
  "(fst (redirect_to_long_url w s) = Inl NotFound \<longleftrightarrow> s \<notin> keys (fake_db w)) \<and>
   (fst (get_url_stats w s) = Inl NotFound \<longleftrightarrow> s \<notin> keys (fake_db w)) \<and>
   (\<forall>e. fst (redirect_to_long_url w s) = Inl e \<longrightarrow> e = NotFound) \<and>
   (\<forall>e. fst (get_url_stats w s) = Inl e \<longrightarrow> e = NotFound) \<and>
   (\<forall>res w'. handle w (Shorten u b) = Some (res, w') \<longrightarrow> (\<exists>r. res = Inr (Shortened r)))"
proof -
  have "map_of (fake_db w) s = None \<longleftrightarrow> s \<notin> keys (fake_db w)"
    by (rule map_of_None_keys)
  then show ?thesis
    by (cases "map_of (fake_db w) s")
       (auto simp: redirect_to_long_url_def get_url_stats_def NotFound_def Let_def
             split: option.splits)
qed

theorem not_found_iff_witness:
  "''ZZZZZZ'' \<notin> keys (fake_db example_two) \<and>
   fst (redirect_to_long_url example_two ''ZZZZZZ'') = Inl NotFound \<and>
   fst (get_url_stats example_two ''ZZZZZZ'') = Inl NotFound \<and>
   ''aaaaaa'' \<in> keys (fake_db example_two) \<and>
   fst (redirect_to_long_url example_two ''aaaaaa'') \<noteq> Inl NotFound \<and>
   fst (get_url_stats example_two ''aaaaaa'') \<noteq> Inl NotFound"
  using not_found_iff [of example_two "''ZZZZZZ''"] not_found_iff [of example_two "''aaaaaa''"]
  by (simp add: keys_example_two)

text \<open>
  C7. For a short code that is a key of \<open>fake_db\<close>, \<open>get_url_stats\<close> returns the
  entry stored under it, with all its fields, and the state after the call is the state
  before it: no counter, no entry and no key has changed.
\<close>

theorem get_url_stats_read_only:
  assumes "s \<in> keys (fake_db w)"
  shows "\<exists>info. map_of (fake_db w) s = Some info \<and> get_url_stats w s = (Inr info, w)"
proof -
  from assms obtain info where "map_of (fake_db w) s = Some info"
    using map_of_None_keys [of "fake_db w" s] by (cases "map_of (fake_db w) s") auto
  then show ?thesis by (simp add: get_url_stats_def)
qed

theorem get_url_stats_read_only_witness:
  "''aaaaaa'' \<in> keys (fake_db example_two) \<and>
   get_url_stats example_two ''aaaaaa'' = (Inr info_a, example_two) \<and>
   clicks info_a = 0"
proof -
  have k: "''aaaaaa'' \<in> keys (fake_db example_two)"
    by (simp add: keys_example_two)
  from get_url_stats_read_only [OF k] k show ?thesis
    by (auto simp: map_of_example_two info_a_def)
qed

text \<open>
  C10. In every state the process can reach, each entry of \<open>fake_db\<close> is stored under
  its own \<open>short_code\<close>, and each of the four endpoints keeps it so.
\<close>

theorem key_field_agreement:
  "(reachable w \<longrightarrow> keys_agree (fake_db w)) \<and>
   (keys_agree (fake_db w) \<longrightarrow>
      (\<forall>k info. map_of (fake_db w) k = Some info \<longrightarrow> short_code info = k) \<and>
      (\<forall>u b r w'. shorten_url w u b = Some (r, w') \<longrightarrow> keys_agree (fake_db w')) \<and>
      (\<forall>c r w'. redirect_to_long_url w c = (r, w') \<longrightarrow> keys_agree (fake_db w')) \<and>
      (\<forall>r w'. get_all_urls w = (r, w') \<longrightarrow> keys_agree (fake_db w')) \<and>
      (\<forall>c r w'. get_url_stats w c = (r, w') \<longrightarrow> keys_agree (fake_db w')))"
proof (intro conjI impI allI)
  assume "reachable w"
  then show "keys_agree (fake_db w)"
    using reachable_wf_db by (simp add: wf_db_def)
next
  fix k info assume "keys_agree (fake_db w)" "map_of (fake_db w) k = Some info"
  then show "short_code info = k" by (rule keys_agree_map_of)
next
  fix u b r w' assume ka: "keys_agree (fake_db w)" and s: "shorten_url w u b = Some (r, w')"
  from s show "keys_agree (fake_db w')"
  proof (cases rule: shorten_url_cases)
    case (found k v)
    with ka show ?thesis by simp
  next
    case (new c w1)
    from generate_fresh(2) [OF new(2)] ka new(4) show ?thesis
      by (simp add: keys_agree_setitem)
  qed
next
  fix c r w' assume ka: "keys_agree (fake_db w)" and s: "redirect_to_long_url w c = (r, w')"
  show "keys_agree (fake_db w')"
  proof (cases "map_of (fake_db w) c")
    case None
    with ka s show ?thesis by (simp add: redirect_to_long_url_def)
  next
    case (Some v)
    from ka Some have "short_code v = c" by (rule keys_agree_map_of)
    with ka have "keys_agree (setitem (fake_db w) c (v\<lparr>clicks := clicks v + 1\<rparr>))"
      by (simp add: keys_agree_setitem)
    with s Some show ?thesis by (auto simp: redirect_to_long_url_def)
  qed
next
  fix r w' assume "keys_agree (fake_db w)" "get_all_urls w = (r, w')"
  then show "keys_agree (fake_db w')" by (auto simp: get_all_urls_def)
next
  fix c r w' assume "keys_agree (fake_db w)" "get_url_stats w c = (r, w')"
  then show "keys_agree (fake_db w')"
    using get_url_stats_world [of w c] by simp
qed

theorem key_field_agreement_witness:
  "reachable example_one \<and> keys_agree (fake_db example_one) \<and>
   shorten_url example_one ''https://example.com/b'' ''http://testserver/'' =
     Some (URLShortened ''https://example.com/b'' ''bbbbbb'' ''http://testserver/bbbbbb'',
           example_two) \<and>
   keys_agree (fake_db example_two) \<and>
   map_of (fake_db example_one) ''aaaaaa'' = Some info_a \<and> short_code info_a = ''aaaaaa''"
  using key_field_agreement [of example_one] reachable_example_one shorten_example_one
  by (simp add: example_one_def info_a_def)

text \<open>
  C2. When \<open>shorten_url\<close> has returned for a long URL, a second call with the same long
  URL (whatever the base URL of the request) returns the same short code and leaves the
  whole state as it was: no entry is added, no random draw and no identifier is consumed.
  After it \<open>fake_db\<close> holds exactly one entry with that long URL.
\<close>

theorem shorten_url_idempotent:
  assumes "reachable w" and "shorten_url w u b = Some (r1, w1)"
  shows "\<exists>r2. shorten_url w1 u b' = Some (r2, w1) \<and>
              resp_short_code r2 = resp_short_code r1 \<and>
              length (filter (\<lambda>(code, info). long_url info = u) (fake_db w1)) = 1"
  using assms(2)
proof (cases rule: shorten_url_cases)
  case (found k v)
  from find_SomeD [OF found(1)] have mem: "(k, v) \<in> set (fake_db w)" and u: "long_url v = u"
    by simp_all
  from reachable_wf_db [OF assms(1)]
  have "distinct (map (\<lambda>(code, info). long_url info) (fake_db w))"
    by (simp add: wf_db_def)
  from length_filter_distinct_map [OF this mem]
  have "length (filter (\<lambda>(code, info). long_url info = u) (fake_db w)) = 1"
    by (simp add: u case_prod_unfold)
  with found shorten_url_found [OF found(1), of b'] show ?thesis by simp
next
  case (new c w0)
  let ?info = "\<lparr>id_str = shd (uuids w0), long_url = u, short_code = c,
                 short_url = rstrip_slash b @ ''/'' @ c, clicks = 0\<rparr>"
  from generate_fresh [OF new(2)]
  have db: "fake_db w1 = fake_db w @ [(c, ?info)]"
    using new(4) by (simp add: setitem_fresh)
  have "find (\<lambda>(code, info). long_url info = u) (fake_db w1) = Some (c, ?info)"
    unfolding db by (simp add: find_append_None [OF new(1)])
  from shorten_url_found [OF this, of b']
  have "shorten_url w1 u b' = Some (URLShortened u c (rstrip_slash b' @ ''/'' @ c), w1)" .
  moreover have "length (filter (\<lambda>(code, info). long_url info = u) (fake_db w1)) = 1"
    unfolding db by (simp add: filter_find_None [OF new(1)])
  ultimately show ?thesis using new(3) by simp
qed

theorem shorten_url_idempotent_witness:
  "reachable example_start \<and>
   shorten_url example_start ''https://example.com/a'' ''http://testserver/'' =
     Some (URLShortened ''https://example.com/a'' ''aaaaaa'' ''http://testserver/aaaaaa'',
           example_one) \<and>
   (\<exists>r2. shorten_url example_one ''https://example.com/a'' ''http://other/'' =
            Some (r2, example_one) \<and>
         resp_short_code r2 = ''aaaaaa'' \<and>
         length (filter (\<lambda>(code, info). long_url info = ''https://example.com/a'')
                   (fake_db example_one)) = 1)"
  using shorten_url_idempotent [OF reachable_example_start shorten_example_start,
          of "''http://other/''"]
        reachable_example_start shorten_example_start
  by simp

text \<open>
  C3. When \<open>shorten_url\<close> has returned the short code \<open>C\<close> for the long URL \<open>u\<close> in a
  state the process can reach, then \<open>redirect_to_long_url(C)\<close>, called right away or
  after any further requests, raises nothing and redirects to \<open>u\<close>.
\<close>

theorem redirect_after_shorten:
  assumes "reachable w" and "shorten_url w u b = Some (r, w1)"
    and "run w1 qs = Some (rs, w2)"
  shows "\<exists>w3. redirect_to_long_url w2 (resp_short_code r) =
                (Inr (RedirectResponse u HTTP_307_TEMPORARY_REDIRECT), w3)"
proof -
  from reachable_wf_db [OF assms(1)] have "distinct (map fst (fake_db w))"
    by (simp add: wf_db_def)
  from shorten_url_registered [OF this assms(2)] obtain i where
    i: "map_of (fake_db w1) (resp_short_code r) = Some i" "long_url i = u"
    by auto
  from redirect_present [OF run_entry [OF assms(3) i(1)]] i(2) show ?thesis
    by simp
qed

theorem redirect_after_shorten_witness:
  "reachable example_start \<and>
   shorten_url example_start ''https://example.com/a'' ''http://testserver/'' =
     Some (URLShortened ''https://example.com/a'' ''aaaaaa'' ''http://testserver/aaaaaa'',
           example_one) \<and>
   run example_one [Shorten ''https://example.com/b'' ''http://testserver/''] =
     Some ([Inr (Shortened (URLShortened ''https://example.com/b'' ''bbbbbb''
              ''http://testserver/bbbbbb''))], example_two) \<and>
   fst (redirect_to_long_url example_two ''aaaaaa'') =
     Inr (RedirectResponse ''https://example.com/a'' HTTP_307_TEMPORARY_REDIRECT)"
  using redirect_after_shorten [OF reachable_example_start shorten_example_start
          run_example_one_b]
        reachable_example_start shorten_example_start run_example_one_b
  by auto

text \<open>
  C4. The entry \<open>shorten_url\<close> creates for a long URL that was not registered has
  \<open>clicks = 0\<close>. After any further requests, \<open>get_url_stats\<close> on its short code reports
  as many clicks as there were \<open>redirect_to_long_url\<close> requests on that code among them
  (each of them finds the code), whatever the other requests were. And in any state one
  \<open>redirect_to_long_url\<close> on a key adds exactly 1 to the \<open>clicks\<close> of its entry and
  changes no other field of it.
\<close>

theorem click_counting:
  assumes "find (\<lambda>(code, info). long_url info = u) (fake_db w) = None"
    and "shorten_url w u b = Some (r, w1)"
    and "run w1 qs = Some (rs, w2)"
  shows "(\<exists>i. get_url_stats w1 (resp_short_code r) = (Inr i, w1) \<and> clicks i = 0) \<and>
         (\<exists>i. get_url_stats w2 (resp_short_code r) = (Inr i, w2) \<and>
              clicks i = int (count_list qs (Redirect (resp_short_code r)))) \<and>
         (\<forall>c i. map_of (fake_db w2) c = Some i \<longrightarrow>
            (\<exists>w3. redirect_to_long_url w2 c =
                    (Inr (RedirectResponse (long_url i) HTTP_307_TEMPORARY_REDIRECT), w3) \<and>
                  map_of (fake_db w3) c = Some (i\<lparr>clicks := clicks i + 1\<rparr>)))"
proof -
  from shorten_url_fresh_entry [OF assms(1,2)] obtain i where
    i: "map_of (fake_db w1) (resp_short_code r) = Some i" "clicks i = 0"
    by auto
  have first: "\<exists>i. get_url_stats w1 (resp_short_code r) = (Inr i, w1) \<and> clicks i = 0"
    using get_url_stats_present [OF i(1)] i(2) by simp
  have later: "\<exists>i. get_url_stats w2 (resp_short_code r) = (Inr i, w2) \<and>
                 clicks i = int (count_list qs (Redirect (resp_short_code r)))"
    using get_url_stats_present [OF run_entry [OF assms(3) i(1)]] i(2) by simp
  have step: "\<exists>w3. redirect_to_long_url w2 c =
                    (Inr (RedirectResponse (long_url i) HTTP_307_TEMPORARY_REDIRECT), w3) \<and>
                  map_of (fake_db w3) c = Some (i\<lparr>clicks := clicks i + 1\<rparr>)"
    if "map_of (fake_db w2) c = Some i" for c i
    using redirect_present [OF that] by (simp add: map_of_setitem)
  from first later step show ?thesis by blast
qed

theorem click_counting_witness:
  "find (\<lambda>(code, info). long_url info = ''https://example.com/a'') (fake_db example_start) = None \<and>
   shorten_url example_start ''https://example.com/a'' ''http://testserver/'' =
     Some (URLShortened ''https://example.com/a'' ''aaaaaa'' ''http://testserver/aaaaaa'',
           example_one) \<and>
   (\<exists>rs. run example_one
           [Redirect ''aaaaaa'', Stats ''aaaaaa'', Redirect ''ZZZZZZ'', Redirect ''aaaaaa'']
         = Some (rs, example_clicked)) \<and>
   (\<exists>i. get_url_stats example_one ''aaaaaa'' = (Inr i, example_one) \<and> clicks i = 0) \<and>
   (\<exists>i. get_url_stats example_clicked ''aaaaaa'' = (Inr i, example_clicked) \<and> clicks i = 2)"
  using click_counting [OF find_example_start shorten_example_start run_example_clicks]
        find_example_start shorten_example_start run_example_clicks
  by simp

text \<open>
  C1. Take a state the process can reach and serve any requests from it in which the
  long URLs submitted to \<open>shorten_url\<close> are pairwise distinct (in particular N calls of
  \<open>shorten_url\<close> in a row). Then there is one short code returned per submitted URL, the
  codes returned are pairwise distinct, and in the state reached no two entries of
  \<open>fake_db\<close> have the same key or the same \<open>short_code\<close>.
\<close>

theorem short_codes_unique:
  assumes "reachable w" and "run w qs = Some (rs, w')" and "distinct (submitted qs)"
  shows "length (shortened rs) = length (submitted qs) \<and>
         distinct (map resp_short_code (shortened rs)) \<and>
         distinct (map fst (fake_db w')) \<and>
         distinct (map (\<lambda>(k, info). short_code info) (fake_db w'))"
proof -
  have wf: "wf_db (fake_db w)"
    using assms(1) by (rule reachable_wf_db)
  have urls: "map resp_long_url (shortened rs) = submitted qs"
    using assms(2) by (rule run_submitted)
  then have len: "length (shortened rs) = length (submitted qs)"
    by (metis length_map)
  from urls assms(3) have "distinct (map resp_long_url (shortened rs))"
    by simp
  then have d: "distinct (shortened rs)" and inj: "inj_on resp_long_url (set (shortened rs))"
    by (simp_all add: distinct_map)
  have "inj_on resp_short_code (set (shortened rs))"
  proof (rule inj_onI)
    fix x y
    assume x: "x \<in> set (shortened rs)" and y: "y \<in> set (shortened rs)"
      and eq: "resp_short_code x = resp_short_code y"
    from run_registered [OF wf assms(2)] x obtain i where
      i: "map_of (fake_db w') (resp_short_code x) = Some i" "long_url i = resp_long_url x"
      by blast
    from run_registered [OF wf assms(2)] y obtain j where
      j: "map_of (fake_db w') (resp_short_code y) = Some j" "long_url j = resp_long_url y"
      by blast
    from i(1) j(1) eq have "i = j" by simp
    with i(2) j(2) have "resp_long_url x = resp_long_url y" by simp
    with inj x y show "x = y" by (simp add: inj_on_def)
  qed
  with d have codes: "distinct (map resp_short_code (shortened rs))"
    by (simp add: distinct_map)
  have wf': "wf_db (fake_db w')"
    using wf assms(2) by (rule run_wf_db)
  then have dk: "distinct (map fst (fake_db w'))" and ka: "keys_agree (fake_db w')"
    by (simp_all add: wf_db_def)
  have "distinct (map (\<lambda>(k, info). short_code info) (fake_db w'))"
    unfolding keys_agree_codes [OF ka] by (rule dk)
  with len codes dk show ?thesis by blast
qed

theorem short_codes_unique_witness:
  "reachable example_start \<and>
   run example_start [Shorten ''https://example.com/a'' ''http://testserver/'',
                      Shorten ''https://example.com/b'' ''http://testserver/''] =
     Some ([Inr (Shortened (URLShortened ''https://example.com/a'' ''aaaaaa''
              ''http://testserver/aaaaaa'')),
            Inr (Shortened (URLShortened ''https://example.com/b'' ''bbbbbb''
              ''http://testserver/bbbbbb''))], example_two) \<and>
   distinct [''https://example.com/a'', ''https://example.com/b''] \<and>
   distinct [''aaaaaa'', ''bbbbbb''] \<and>
   distinct (map fst (fake_db example_two)) \<and>
   distinct (map (\<lambda>(k, info). short_code info) (fake_db example_two))"
proof -
  have d: "distinct (submitted [Shorten ''https://example.com/a'' ''http://testserver/'',
                      Shorten ''https://example.com/b'' ''http://testserver/''])"
    by simp
  from short_codes_unique [OF reachable_example_start run_example_start_ab d]
    reachable_example_start run_example_start_ab
  show ?thesis by simp
qed

text \<open>
  C8. When the process has served any requests since its start, \<open>get_all_urls\<close> returns
  one entry for each short code that \<open>shorten_url\<close> has returned and no other entry:
  the short codes of the entries listed are pairwise distinct and are exactly the codes
  returned, each entry listed is the one stored under its short code, and the entry of a
  returned code has the long URL that was submitted for it. The call leaves the state as
  it was.
\<close>

theorem get_all_urls_complete:
  assumes "fake_db w0 = []" and "run w0 qs = Some (rs, w)"
  shows "\<exists>infos. get_all_urls w = (infos, w) \<and>
           distinct (map short_code infos) \<and>
           set (map short_code infos) = set (map resp_short_code (shortened rs)) \<and>
           (\<forall>info\<in>set infos. map_of (fake_db w) (short_code info) = Some info) \<and>
           (\<forall>r\<in>set (shortened rs). \<exists>info\<in>set infos.
               short_code info = resp_short_code r \<and> long_url info = resp_long_url r)"
proof -
  have wf0: "wf_db (fake_db w0)"
    using assms(1) by (simp add: wf_db_def keys_agree_def)
  have wf: "wf_db (fake_db w)"
    using wf0 assms(2) by (rule run_wf_db)
  then have dk: "distinct (map fst (fake_db w))" and ka: "keys_agree (fake_db w)"
    by (simp_all add: wf_db_def)
  let ?infos = "map snd (fake_db w)"
  have codes: "map short_code ?infos = map fst (fake_db w)"
    using ka by (rule keys_agree_values)
  have "distinct (map short_code ?infos)"
    unfolding codes by (rule dk)
  moreover have "set (map short_code ?infos) = set (map resp_short_code (shortened rs))"
    unfolding codes using run_keys [OF assms(2)] assms(1) by (simp add: keys_def)
  moreover have "\<forall>info\<in>set ?infos. map_of (fake_db w) (short_code info) = Some info"
  proof
    fix info assume "info \<in> set ?infos"
    then obtain k where k: "(k, info) \<in> set (fake_db w)" by auto
    with dk have m: "map_of (fake_db w) k = Some info" by simp
    from keys_agree_map_of [OF ka m] m
    show "map_of (fake_db w) (short_code info) = Some info" by simp
  qed
  moreover have "\<forall>r\<in>set (shortened rs). \<exists>info\<in>set ?infos.
               short_code info = resp_short_code r \<and> long_url info = resp_long_url r"
  proof
    fix r assume "r \<in> set (shortened rs)"
    with run_registered [OF wf0 assms(2)] obtain i where
      i: "map_of (fake_db w) (resp_short_code r) = Some i" "long_url i = resp_long_url r"
      by blast
    from map_of_SomeD [OF i(1)] have "i \<in> set ?infos" by force
    with keys_agree_map_of [OF ka i(1)] i(2)
    show "\<exists>info\<in>set ?infos.
            short_code info = resp_short_code r \<and> long_url info = resp_long_url r"
      by blast
  qed
  moreover have "get_all_urls w = (?infos, w)"
    by (simp add: get_all_urls_def)
  ultimately show ?thesis by blast
qed

theorem get_all_urls_complete_witness:
  "fake_db example_start = [] \<and>
   run example_start [Shorten ''https://example.com/a'' ''http://testserver/'',
                      Shorten ''https://example.com/b'' ''http://testserver/''] =
     Some ([Inr (Shortened (URLShortened ''https://example.com/a'' ''aaaaaa''
              ''http://testserver/aaaaaa'')),
            Inr (Shortened (URLShortened ''https://example.com/b'' ''bbbbbb''
              ''http://testserver/bbbbbb''))], example_two) \<and>
   (\<exists>infos. get_all_urls example_two = (infos, example_two) \<and>
      distinct (map short_code infos) \<and>
      set (map short_code infos) = {''aaaaaa'', ''bbbbbb''})"
proof -
  from get_all_urls_complete [OF fake_db_example_start run_example_start_ab]
  obtain infos where "get_all_urls example_two = (infos, example_two)"
    "distinct (map short_code infos)"
    "set (map short_code infos) = {''aaaaaa'', ''bbbbbb''}"
    by auto
  then have "\<exists>infos. get_all_urls example_two = (infos, example_two) \<and>
      distinct (map short_code infos) \<and>
      set (map short_code infos) = {''aaaaaa'', ''bbbbbb''}"
    by blast
  with fake_db_example_start run_example_start_ab show ?thesis by blast
qed

text \<open>
  C9, as the specification states it, fails: in \<open>stuck_one\<close>, a state the process can
  reach, \<open>fake_db\<close> holds the single code \<open>aaaaaa\<close>, so \<open>bbbbbb\<close> (a code the generator
  draws from another random source) and almost all other codes of length 6 are free, and
  yet the generator and \<open>shorten_url\<close> never return, because the random source keeps
  drawing \<open>aaaaaa\<close>.
\<close>

theorem bounded_time_counterexample:
  "reachable stuck_one \<and>
   candidate 6 (always 1) 0 = ''bbbbbb'' \<and> length ''bbbbbb'' = 6 \<and>
   ''bbbbbb'' \<notin> keys (fake_db stuck_one) \<and>
   generate_short_code stuck_one 6 = None \<and>
   shorten_url stuck_one ''https://example.com/b'' ''http://testserver/'' = None"
proof -
  have "candidate 6 (always 1) 0 = ''bbbbbb''"
    by (rule candidate_always_1)
  moreover have "''bbbbbb'' \<notin> keys (fake_db stuck_one)"
    by (simp add: stuck_one_def keys_def)
  ultimately show ?thesis
    using reachable_stuck_one generate_stuck_one shorten_stuck_one by simp
qed

text \<open>
  C9, amended. \<open>redirect_to_long_url\<close>, \<open>get_all_urls\<close> and \<open>get_url_stats\<close> always
  return. \<open>generate_short_code\<close> returns exactly when the random source at some point
  draws a candidate that is not a key of \<open>fake_db\<close>; it then returns the first such
  candidate, after as many attempts as its position says. \<open>shorten_url\<close> returns exactly
  when the long URL is already registered or the generator returns.
\<close>

theorem operations_return:
  "(generate_short_code w len \<noteq> None \<longleftrightarrow>
      (\<exists>k. candidate (nat len) (rng w) k \<notin> keys (fake_db w))) \<and>
   (\<forall>k. candidate (nat len) (rng w) k \<notin> keys (fake_db w) \<and>
        (\<forall>j<k. candidate (nat len) (rng w) j \<in> keys (fake_db w)) \<longrightarrow>
        generate_short_code w len =
          Some (candidate (nat len) (rng w) k, w\<lparr>rng := sdrop (Suc k * nat len) (rng w)\<rparr>)) \<and>
   (shorten_url w u b \<noteq> None \<longleftrightarrow>
      find (\<lambda>(code, info). long_url info = u) (fake_db w) \<noteq> None \<or>
      (\<exists>k. candidate 6 (rng w) k \<notin> keys (fake_db w))) \<and>
   handle w (Redirect c) \<noteq> None \<and> handle w GetAll \<noteq> None \<and> handle w (Stats c) \<noteq> None"
proof -
  have gen: "generate_short_code w len \<noteq> None \<longleftrightarrow>
      (\<exists>k. candidate (nat len) (rng w) k \<notin> keys (fake_db w))" for len
    using generate_None_iff [of w len] by simp
  have first: "\<forall>k. candidate (nat len) (rng w) k \<notin> keys (fake_db w) \<and>
        (\<forall>j<k. candidate (nat len) (rng w) j \<in> keys (fake_db w)) \<longrightarrow>
        generate_short_code w len =
          Some (candidate (nat len) (rng w) k, w\<lparr>rng := sdrop (Suc k * nat len) (rng w)\<rparr>)"
    using generate_first_free by blast
  have sh: "shorten_url w u b \<noteq> None \<longleftrightarrow>
      find (\<lambda>(code, info). long_url info = u) (fake_db w) \<noteq> None \<or>
      (\<exists>k. candidate 6 (rng w) k \<notin> keys (fake_db w))"
    using shorten_url_returns_iff [of w u b] gen [of 6] by simp
  have "handle w (Redirect c) \<noteq> None"
    by (simp split: prod.splits sum.splits)
  moreover have "handle w GetAll \<noteq> None"
    by (simp split: prod.splits)
  moreover have "handle w (Stats c) \<noteq> None"
    by (simp split: prod.splits sum.splits)
  ultimately show ?thesis
    using gen [of len] first sh by blast
qed

theorem operations_return_witness:
  "candidate 6 (rng example_one) 1 \<notin> keys (fake_db example_one) \<and>
   candidate 6 (rng example_one) 0 \<in> keys (fake_db example_one) \<and>
   generate_short_code example_one 6 =
     Some (''bbbbbb'', example_one\<lparr>rng := sdrop 12 (rng example_one)\<rparr>) \<and>
   shorten_url example_one ''https://example.com/b'' ''http://testserver/'' \<noteq> None"
proof -
  have free: "candidate 6 (rng example_one) 1 \<notin> keys (fake_db example_one)"
    by (simp add: candidate_example_one keys_example_one)
  have busy: "candidate 6 (rng example_one) 0 \<in> keys (fake_db example_one)"
    by (simp add: candidate_example_one keys_example_one)
  note ret = operations_return [of example_one 6 "''https://example.com/b''"
      "''http://testserver/''" "''aaaaaa''"]
  from busy have busy': "\<forall>j<1. candidate 6 (rng example_one) j \<in> keys (fake_db example_one)"
    by simp
  from ret have "candidate (nat 6) (rng example_one) 1 \<notin> keys (fake_db example_one) \<and>
        (\<forall>j<1. candidate (nat 6) (rng example_one) j \<in> keys (fake_db example_one)) \<longrightarrow>
        generate_short_code example_one 6 =
          Some (candidate (nat 6) (rng example_one) 1,
                example_one\<lparr>rng := sdrop (Suc 1 * nat 6) (rng example_one)\<rparr>)"
    by blast
  with free busy' have "generate_short_code example_one 6 =
          Some (candidate 6 (rng example_one) 1,
                example_one\<lparr>rng := sdrop 12 (rng example_one)\<rparr>)"
    by simp
  moreover from ret free
  have "shorten_url example_one ''https://example.com/b'' ''http://testserver/'' \<noteq> None"
    by blast
  ultimately have "generate_short_code example_one 6 =
          Some (candidate 6 (rng example_one) 1,
                example_one\<lparr>rng := sdrop 12 (rng example_one)\<rparr>)"
    and "shorten_url example_one ''https://example.com/b'' ''http://testserver/'' \<noteq> None"
    by simp_all
  with free busy show ?thesis
    by (simp add: candidate_example_one)
qed

end
